theory Spec2Isabelle
  imports Main "HOL-Library.Log_Nat" "HOL-Library.Multiset"
begin

section \<open>Fluentify AI: practice session, exercise drill and phrase library\<close>

text \<open>
  A shallow embedding of the state logic of the top-level component \<^verbatim>\<open>App\<close>
  (\<^verbatim>\<open>src/unnamed/part_000\<close>), of \<^verbatim>\<open>analyzeSpeech\<close>
  (\<^verbatim>\<open>src/services/geminiService.ts\<close>) and of the types of \<^verbatim>\<open>src/types.ts\<close>.
  React state is one record; every handler is a function from the state to the new state.
  What the JavaScript runtime provides (string methods, \<^verbatim>\<open>Map\<close>, \<^verbatim>\<open>Array.prototype.sort\<close>,
  \<^verbatim>\<open>Math.round\<close>, double arithmetic, \<^verbatim>\<open>JSON.parse\<close>) is written out below, each with
  the part of the language it covers.
\<close>

subsection \<open>JavaScript strings\<close>

text \<open>
  A string is a list of code units. The model covers the code units 0 to 255 (the Latin-1
  block of Unicode), which HOL's \<^typ>\<open>char\<close> holds. There \<^verbatim>\<open>\s\<close> and \<^verbatim>\<open>trim\<close> see
  the same seven characters (TAB, LF, VT, FF, CR, SPACE, NBSP), and \<^verbatim>\<open>toLowerCase\<close>
  adds 32 to A-Z and to the accented capitals 192-222 except the multiplication sign 215.
\<close>

definition isWhiteSpace :: "char \<Rightarrow> bool" where
  "isWhiteSpace c = (of_char c \<in> {9, 10, 11, 12, 13, 32, 160 :: nat})"

definition toLowerChar :: "char \<Rightarrow> char" where
  "toLowerChar c =
     (let n = (of_char c :: nat)
      in if (65 \<le> n \<and> n \<le> 90) \<or> (192 \<le> n \<and> n \<le> 222 \<and> n \<noteq> 215)
         then char_of (n + 32) else c)"

definition toLowerCase :: "string \<Rightarrow> string" where
  "toLowerCase s = map toLowerChar s"

text \<open>The character class of \<^verbatim>\<open>/[.,/#!$%^&*;:{}=\-_`~()]/g\<close>.\<close>

definition punctuation :: "char set" where
  "punctuation = set ''.,/#!$%^&*;:{}=-_`~()''"

definition removePunctuation :: "string \<Rightarrow> string" where
  "removePunctuation s = filter (\<lambda>c. c \<notin> punctuation) s"

text \<open>
  \<^verbatim>\<open>replace(/\s+/g, " ")\<close>: every maximal run of white space becomes one space. The flag
  says that the previous character was white space, so the run has its space already.
\<close>

fun collapseRuns :: "bool \<Rightarrow> string \<Rightarrow> string" where
  "collapseRuns inRun [] = []"
| "collapseRuns inRun (c # cs) =
     (if isWhiteSpace c
      then (if inRun then collapseRuns True cs else CHR '' '' # collapseRuns True cs)
      else c # collapseRuns False cs)"

definition collapseWhitespace :: "string \<Rightarrow> string" where
  "collapseWhitespace s = collapseRuns False s"

definition trim :: "string \<Rightarrow> string" where
  "trim s = rev (dropWhile isWhiteSpace (rev (dropWhile isWhiteSpace s)))"

definition normalizeText :: "string \<Rightarrow> string" where
  "normalizeText text = trim (collapseWhitespace (removePunctuation (toLowerCase text)))"

text \<open>
  \<^verbatim>\<open>s.split(' ')\<close>: the pieces between single spaces; the empty string gives one empty
  piece, and two spaces in a row give an empty piece between them.
\<close>

fun split_space :: "string \<Rightarrow> string list" where
  "split_space [] = [[]]"
| "split_space (c # cs) =
     (if c = CHR '' '' then [] # split_space cs
      else (case split_space cs of
              [] \<Rightarrow> [[c]]
            | w # ws \<Rightarrow> (c # w) # ws))"

text \<open>\<^verbatim>\<open>xs[i]\<close>: \<^verbatim>\<open>undefined\<close> (here \<open>None\<close>) out of range.\<close>

fun at_index :: "'a list \<Rightarrow> nat \<Rightarrow> 'a option" where
  "at_index [] i = None"
| "at_index (x # xs) 0 = Some x"
| "at_index (x # xs) (Suc i) = at_index xs i"

subsection \<open>JavaScript numbers\<close>

text \<open>
  A finite double is the rational it denotes. \<open>fl\<close> rounds a rational to the nearest
  double with a 53-bit significand, ties to the even significand, as every IEEE 754
  operation does with its exact result. Overflow and subnormal numbers are left out: the
  numbers of the writing check lie between \<open>2 powr -32\<close> and 100.
\<close>

definition ilog2 :: "rat \<Rightarrow> int" where
  "ilog2 x =
     (let (a, b) = quotient_of x; k = bitlen a - bitlen b
      in if power_int 2 k \<le> x then k else k - 1)"

definition rne :: "rat \<Rightarrow> int" where
  "rne x =
     (let f = \<lfloor>x\<rfloor>; r = x - of_int f
      in if r < 1 / 2 then f else if 1 / 2 < r then f + 1 else if even f then f else f + 1)"

definition ulp :: "rat \<Rightarrow> rat" where
  "ulp x = power_int 2 (ilog2 \<bar>x\<bar> - 52)"

definition fl :: "rat \<Rightarrow> rat" where
  "fl x = (if x = 0 then 0 else sgn x * of_int (rne (\<bar>x\<bar> / ulp x)) * ulp x)"

definition fdiv :: "rat \<Rightarrow> rat \<Rightarrow> rat" where
  "fdiv x y = fl (x / y)"

definition fmul :: "rat \<Rightarrow> rat \<Rightarrow> rat" where
  "fmul x y = fl (x * y)"

text \<open>\<^verbatim>\<open>Math.round\<close>: the nearest integer, a half rounding up.\<close>

definition Math_round :: "rat \<Rightarrow> int" where
  "Math_round x = \<lfloor>x + 1 / 2\<rfloor>"

subsection \<open>The types of \<^verbatim>\<open>types.ts\<close>\<close>

text \<open>
  An optional field is an \<open>option\<close>. Scores and counts are integers, as the data model
  has them. \<open>id'\<close>, \<open>text'\<close> and \<open>note'\<close> are the fields \<^verbatim>\<open>id\<close>, \<^verbatim>\<open>text\<close> and
  \<^verbatim>\<open>note\<close>.
\<close>

record SavedPhrase =
  id' :: string
  text' :: string
  note' :: string
  timestamp :: nat
  lastScore :: "int option"
  practiceCount :: "nat option"

datatype AppStatus = IDLE | RECORDING | ANALYZING | RESULT | ERROR | EXERCISE

datatype Difficulty = Easy | Medium | Hard

datatype ExerciseStep = WRITING | SPEAKING | STEP_RESULT | FINISHED

record DiffEntry =
  word :: string
  isCorrect :: bool

record WritingResult =
  score :: int
  diff :: "DiffEntry list"

record ExerciseState =
  currentPhraseIndex :: nat
  shuffledPhrases :: "SavedPhrase list"
  step :: ExerciseStep
  userInput :: string
  writingResult :: "WritingResult option"

text \<open>
  What \<^verbatim>\<open>JSON.parse\<close> returns. \<^verbatim>\<open>analyzeSpeech\<close> casts it to \<^verbatim>\<open>AnalysisResult\<close>
  without looking at it, so the state holds the value as parsed; \<open>isAnalysisResult\<close> is the
  interface of \<^verbatim>\<open>types.ts\<close> as a predicate.
\<close>

datatype json =
  JNull | JBool bool | JNum int | JStr string | JArr "json list" | JObj "(string \<times> json) list"

fun isJStr :: "json \<Rightarrow> bool" where
  "isJStr (JStr s) = True"
| "isJStr v = False"

fun isJNum :: "json \<Rightarrow> bool" where
  "isJNum (JNum n) = True"
| "isJNum v = False"

fun isJBool :: "json \<Rightarrow> bool" where
  "isJBool (JBool b) = True"
| "isJBool v = False"

fun isJStrArr :: "json \<Rightarrow> bool" where
  "isJStrArr (JArr vs) = list_all isJStr vs"
| "isJStrArr v = False"

definition hasField :: "(string \<times> json) list \<Rightarrow> string \<Rightarrow> (json \<Rightarrow> bool) \<Rightarrow> bool" where
  "hasField kvs name ok = (case map_of kvs name of None \<Rightarrow> False | Some v \<Rightarrow> ok v)"

fun isAnalysisResult :: "json \<Rightarrow> bool" where
  "isAnalysisResult (JObj kvs) =
     (hasField kvs ''accuracyScore'' isJNum \<and>
      hasField kvs ''transcription'' isJStr \<and>
      hasField kvs ''mispronouncedWords'' isJStrArr \<and>
      hasField kvs ''feedback'' isJStr \<and>
      hasField kvs ''tips'' isJStr \<and>
      hasField kvs ''isPerfect'' isJBool)"
| "isAnalysisResult v = False"

datatype js_error = TypeError | SyntaxError | ApiError | EncodingError

text \<open>The three messages of the component (their wording is Vietnamese in the source).\<close>

datatype message = NoMessage | MicrophoneDenied | AnalysisFailed | GenerationFailed

text \<open>
  The state of \<^verbatim>\<open>App\<close>. \<open>storedPhrases\<close> is the entry \<^verbatim>\<open>fluentify_phrases\<close> of
  \<^verbatim>\<open>localStorage\<close>, held as the sequence that was serialised into it.
\<close>

record App =
  targetText :: string
  status :: AppStatus
  difficulty :: Difficulty
  result :: "json option"
  errorMessage :: message
  savedPhrases :: "SavedPhrase list"
  phraseNote :: string
  showSaveModal :: bool
  exercise :: "ExerciseState option"
  storedPhrases :: "SavedPhrase list option"

subsection \<open>The phrase library\<close>

text \<open>
  \<^verbatim>\<open>updatePhraseScore\<close> (lines 94-104). The parameter is a \<^verbatim>\<open>number\<close>; \<open>None\<close> is the
  \<^verbatim>\<open>undefined\<close> that \<^verbatim>\<open>handleProcessing\<close> passes when the parsed analysis has no
  \<^verbatim>\<open>accuracyScore\<close>. \<^verbatim>\<open>p.practiceCount || 0\<close> reads an absent count as 0.
\<close>

definition updatePhraseScore :: "string \<Rightarrow> int option \<Rightarrow> App \<Rightarrow> App" where
  "updatePhraseScore i sc st =
     (let updated =
            map (\<lambda>p. if id' p = i
                      then (let newCount = (case practiceCount p of None \<Rightarrow> 0 | Some n \<Rightarrow> n) + 1
                            in p\<lparr>lastScore := sc, practiceCount := Some newCount\<rparr>)
                      else p)
                (savedPhrases st)
      in st\<lparr>savedPhrases := updated, storedPhrases := Some updated\<rparr>)"


text \<open>
  \<^verbatim>\<open>new Map(pairs)\<close> sets the pairs one after the other: a new key goes to the end, a key
  already there keeps its place and takes the new value. \<^verbatim>\<open>values()\<close> follows that order.
\<close>

fun Map_set :: "('k \<times> 'v) list \<Rightarrow> 'k \<Rightarrow> 'v \<Rightarrow> ('k \<times> 'v) list" where
  "Map_set [] k v = [(k, v)]"
| "Map_set ((k', v') # m) k v = (if k' = k then (k', v) # m else (k', v') # Map_set m k v)"

definition new_Map :: "('k \<times> 'v) list \<Rightarrow> ('k \<times> 'v) list" where
  "new_Map pairs = foldl (\<lambda>m (k, v). Map_set m k v) [] pairs"

definition Map_values :: "('k \<times> 'v) list \<Rightarrow> 'v list" where
  "Map_values m = map snd m"

text \<open>
  \<^verbatim>\<open>handleImport\<close> (lines 297-318). The file chosen is given by what the handler finds in
  it; the elements of an array are taken to be phrase records. \<open>confirmed\<close> is the answer
  to \<^verbatim>\<open>confirm\<close>.
\<close>

datatype import_file = NoFile | NotJsonFile | NotArrayFile | ArrayFile "SavedPhrase list"

definition mergeImport :: "SavedPhrase list \<Rightarrow> SavedPhrase list \<Rightarrow> SavedPhrase list" where
  "mergeImport js saved =
     (let merged = js @ saved
      in Map_values (new_Map (map (\<lambda>item. (text' item, item)) merged)))"

definition handleImport :: "import_file \<Rightarrow> bool \<Rightarrow> App \<Rightarrow> App" where
  "handleImport file confirmed st =
     (case file of
        ArrayFile js \<Rightarrow>
          (if confirmed
           then (let unique = mergeImport js (savedPhrases st)
                 in st\<lparr>savedPhrases := unique, storedPhrases := Some unique\<rparr>)
           else st)
      | _ \<Rightarrow> st)"

subsection \<open>The practice session\<close>

text \<open>
  \<^verbatim>\<open>startRecording\<close> (lines 106-122); \<open>granted\<close> says whether \<^verbatim>\<open>getUserMedia\<close>
  resolved. The header's \<^verbatim>\<open>onGoHome\<close> (line 336) is the reset.
\<close>

definition startRecording :: "bool \<Rightarrow> App \<Rightarrow> App" where
  "startRecording granted st =
     (if granted then st\<lparr>status := RECORDING, result := None, errorMessage := NoMessage\<rparr>
      else st\<lparr>errorMessage := MicrophoneDenied, status := ERROR\<rparr>)"

definition onGoHome :: "App \<Rightarrow> App" where
  "onGoHome st = st\<lparr>status := IDLE, exercise := None, result := None\<rparr>"

text \<open>
  \<^verbatim>\<open>analyzeSpeech\<close> (geminiService.ts, lines 7-68). The request is rejected, or it
  resolves with a response whose \<^verbatim>\<open>text\<close> is absent or empty (\<open>NoText\<close>), is not JSON
  (\<open>NotJson\<close>: \<^verbatim>\<open>JSON.parse\<close> throws), or is the JSON text of a value.
  \<^verbatim>\<open>response.text || '{}'\<close> parses the empty object for \<open>NoText\<close>.
\<close>

datatype response_text = NoText | NotJson | Json json

datatype api_response = Rejected | Response response_text

fun analyzeSpeech :: "api_response \<Rightarrow> js_error + json" where
  "analyzeSpeech Rejected = Inl ApiError"
| "analyzeSpeech (Response NoText) = Inr (JObj [])"
| "analyzeSpeech (Response NotJson) = Inl SyntaxError"
| "analyzeSpeech (Response (Json v)) = Inr v"

text \<open>
  \<^verbatim>\<open>analysis.accuracyScore\<close>: reading a property of \<^verbatim>\<open>null\<close> throws; a value without the
  property gives \<^verbatim>\<open>undefined\<close>. A property that is not a number is read as absent here,
  since \<open>lastScore\<close> holds integers.
\<close>

fun accuracyScore :: "json \<Rightarrow> js_error + int option" where
  "accuracyScore JNull = Inl TypeError"
| "accuracyScore (JObj kvs) =
     (case map_of kvs ''accuracyScore'' of Some (JNum n) \<Rightarrow> Inr (Some n) | _ \<Rightarrow> Inr None)"
| "accuracyScore v = Inr None"

text \<open>
  The state \<^verbatim>\<open>result\<close> is \<^verbatim>\<open>AnalysisResult | null\<close>: \<open>None\<close> is \<^verbatim>\<open>null\<close>, also when
  it is a parsed \<^verbatim>\<open>null\<close> that \<^verbatim>\<open>setResult\<close> stores.
\<close>

fun nullable :: "json \<Rightarrow> json option" where
  "nullable JNull = None"
| "nullable v = Some v"

text \<open>
  \<^verbatim>\<open>handleProcessing\<close> (lines 171-187). \<open>base64\<close> is the outcome of \<^verbatim>\<open>blobToBase64\<close>,
  \<open>resp\<close> the outcome of the request. Whatever is thrown inside \<^verbatim>\<open>try\<close> runs the
  \<^verbatim>\<open>catch\<close> on the state reached so far.
\<close>

definition analysisFailed :: "App \<Rightarrow> App" where
  "analysisFailed st = st\<lparr>errorMessage := AnalysisFailed, status := ERROR\<rparr>"

definition handleProcessing :: "js_error + string \<Rightarrow> api_response \<Rightarrow> App \<Rightarrow> App" where
  "handleProcessing base64 resp st =
     (let st1 = st\<lparr>status := ANALYZING\<rparr>
      in case base64 of
           Inl e \<Rightarrow> analysisFailed st1
         | Inr b \<Rightarrow>
             (case analyzeSpeech resp of
                Inl e \<Rightarrow> analysisFailed st1
              | Inr analysis \<Rightarrow>
                  (let st2 = st1\<lparr>result := nullable analysis, status := RESULT\<rparr>
                   in case exercise st2 of
                        None \<Rightarrow> st2
                      | Some ex \<Rightarrow>
                          (case at_index (shuffledPhrases ex) (currentPhraseIndex ex) of
                             None \<Rightarrow> analysisFailed st2
                           | Some cur \<Rightarrow>
                               (case accuracyScore analysis of
                                  Inl e \<Rightarrow> analysisFailed st2
                                | Inr sc \<Rightarrow> updatePhraseScore (id' cur) sc st2)))))"

text \<open>
  What the render does with a stored result (lines 516-535): the panel is drawn when the
  status is RESULT and \<^verbatim>\<open>result\<close> is truthy, and it evaluates
  \<^verbatim>\<open>result.mispronouncedWords.length > 0 && result.mispronouncedWords.map(...)\<close>. Reading
  \<^verbatim>\<open>length\<close> of \<^verbatim>\<open>undefined\<close> or \<^verbatim>\<open>null\<close> throws, and so does \<^verbatim>\<open>map\<close> on a
  non-empty string; \<open>Inr True\<close> says that the panel is drawn.
\<close>

fun truthy :: "json \<Rightarrow> bool" where
  "truthy JNull = False"
| "truthy (JBool b) = b"
| "truthy (JNum n) = (n \<noteq> 0)"
| "truthy (JStr s) = (s \<noteq> [])"
| "truthy v = True"

fun mispronouncedWordsList :: "json \<Rightarrow> js_error + unit" where
  "mispronouncedWordsList (JObj kvs) =
     (case map_of kvs ''mispronouncedWords'' of
        None \<Rightarrow> Inl TypeError
      | Some JNull \<Rightarrow> Inl TypeError
      | Some (JStr s) \<Rightarrow> (if s = [] then Inr () else Inl TypeError)
      | Some v \<Rightarrow> Inr ())"
| "mispronouncedWordsList v = Inl TypeError"

definition renderResultPanel :: "App \<Rightarrow> js_error + bool" where
  "renderResultPanel st =
     (if status st = RESULT
      then (case result st of
              None \<Rightarrow> Inr False
            | Some r \<Rightarrow>
                (if truthy r
                 then (case mispronouncedWordsList r of Inl e \<Rightarrow> Inl e | Inr u \<Rightarrow> Inr True)
                 else Inr False))
      else Inr False)"

subsection \<open>The exercise drill\<close>











text \<open>
  The body of \<^verbatim>\<open>checkWriting\<close> (lines 254-262) for the phrase text and the typed input.
  \<^verbatim>\<open>userWords[idx] === word\<close> is false where \<^verbatim>\<open>userWords[idx]\<close> is \<^verbatim>\<open>undefined\<close>;
  \<^verbatim>\<open>current.text.split(' ')[idx] || word\<close> falls back to the normalized word where the
  original piece is \<^verbatim>\<open>undefined\<close> or empty.
\<close>

definition originalWord :: "string \<Rightarrow> nat \<Rightarrow> string \<Rightarrow> string" where
  "originalWord canonical idx w =
     (case at_index (split_space canonical) idx of
        None \<Rightarrow> w
      | Some piece \<Rightarrow> if piece = [] then w else piece)"

definition writingDiff :: "string \<Rightarrow> string \<Rightarrow> DiffEntry list" where
  "writingDiff canonical typed =
     (let targetWords = split_space (normalizeText canonical);
          userWords = split_space (normalizeText typed)
      in map (\<lambda>(idx, w). \<lparr>word = originalWord canonical idx w,
                           isCorrect = (at_index userWords idx = Some w)\<rparr>)
             (enumerate 0 targetWords))"

definition roundedPercent :: "nat \<Rightarrow> nat \<Rightarrow> int" where
  "roundedPercent correctCount len =
     Math_round (fmul (fdiv (of_nat correctCount) (of_nat len)) 100)"

definition writingCheck :: "string \<Rightarrow> string \<Rightarrow> WritingResult" where
  "writingCheck canonical typed =
     (let targetWords = split_space (normalizeText canonical);
          d = writingDiff canonical typed;
          correctCount = length (filter isCorrect d)
      in \<lparr>score = roundedPercent correctCount (length targetWords), diff = d\<rparr>)"

text \<open>
  \<^verbatim>\<open>checkWriting\<close> (lines 251-265): nothing without a drill; \<^verbatim>\<open>current.text\<close> throws
  when the index is outside the snapshot.
\<close>

definition checkWriting :: "App \<Rightarrow> js_error + App" where
  "checkWriting st =
     (case exercise st of
        None \<Rightarrow> Inr st
      | Some ex \<Rightarrow>
          (case at_index (shuffledPhrases ex) (currentPhraseIndex ex) of
             None \<Rightarrow> Inl TypeError
           | Some current \<Rightarrow>
               (let r = writingCheck (text' current) (userInput ex);
                    st' = st\<lparr>exercise := Some (ex\<lparr>writingResult := Some r, step := STEP_RESULT\<rparr>)\<rparr>
                in Inr (updatePhraseScore (id' current) (Some (score r)) st'))))"

subsection \<open>Notions used in the proofs\<close>

text \<open>
  A string is \<open>spaced\<close> when its only white space is the space character and no two
  white-space characters are adjacent: the strings that \<^verbatim>\<open>replace(/\s+/g, " ")\<close> leaves alone.
\<close>

fun spaced :: "string \<Rightarrow> bool" where
  "spaced [] = True"
| "spaced [c] = (isWhiteSpace c \<longrightarrow> c = CHR '' '')"
| "spaced (c # d # cs) =
     ((isWhiteSpace c \<longrightarrow> c = CHR '' '' \<and> \<not> isWhiteSpace d) \<and> spaced (d # cs))"

text \<open>
  The state the component starts in (the \<^verbatim>\<open>useState\<close> defaults, lines 49-64), a drill of
  a single phrase at its writing step, and a phrase whose text is punctuation only.
\<close>

definition initialApp :: App where
  "initialApp =
     \<lparr>targetText = ''The quick brown fox jumps over the lazy dog.'', status = IDLE,
      difficulty = Medium, result = None, errorMessage = NoMessage, savedPhrases = [],
      phraseNote = [], showSaveModal = False, exercise = None, storedPhrases = None\<rparr>"

definition drillOf :: "SavedPhrase \<Rightarrow> string \<Rightarrow> App" where
  "drillOf p typed =
     initialApp\<lparr>savedPhrases := [p], status := EXERCISE, targetText := text' p,
       exercise := Some \<lparr>currentPhraseIndex = 0, shuffledPhrases = [p], step = WRITING,
                          userInput = typed, writingResult = None\<rparr>\<rparr>"

definition dotsPhrase :: SavedPhrase where
  "dotsPhrase = \<lparr>id' = ''p1'', text' = ''...'', note' = [], timestamp = 0,
                  lastScore = None, practiceCount = Some 0\<rparr>"

text \<open>
  The reading of "every positional word matches": at every index of the normalized
  canonical words the typed text has a word, and it is the same word. \<open>correctPositions\<close>
  lists the indices where that holds.
\<close>

definition positionsMatch :: "string \<Rightarrow> string \<Rightarrow> bool" where
  "positionsMatch canonical typed =
     (let targetWords = split_space (normalizeText canonical);
          userWords = split_space (normalizeText typed)
      in list_all (\<lambda>idx. idx < length userWords \<and> userWords ! idx = targetWords ! idx)
           [0..<length targetWords])"

definition correctPositions :: "string list \<Rightarrow> string list \<Rightarrow> nat list" where
  "correctPositions targetWords userWords =
     filter (\<lambda>idx. idx < length userWords \<and> userWords ! idx = targetWords ! idx)
       [0..<length targetWords]"

text \<open>
  A phrase of \<open>n + 1\<close> words: \<open>n\<close> times the word \<^verbatim>\<open>a\<close>, then a word of the single
  character \<open>c\<close>. A character is \<open>plain\<close> when normalization leaves it where it is.
\<close>

definition longPhrase :: "nat \<Rightarrow> char \<Rightarrow> string" where
  "longPhrase n c = concat (replicate n ''a '') @ [c]"

definition plain :: "char \<Rightarrow> bool" where
  "plain c = (toLowerChar c = c \<and> c \<notin> punctuation \<and> \<not> isWhiteSpace c)"





definition analysisFails :: "js_error + string \<Rightarrow> api_response \<Rightarrow> bool" where
  "analysisFails encoded resp = (isl encoded \<or> isl (analyzeSpeech resp))"

text \<open>
  The elements of a list in the order of their first occurrence; the last phrase of a
  sequence that has a given text; and the records of the import scenario: A and B come from
  the file, B (scored 50) and C are in the library.
\<close>

definition firstOccurrences :: "'a list \<Rightarrow> 'a list" where
  "firstOccurrences xs = rev (remdups (rev xs))"

definition lastWithText :: "string \<Rightarrow> SavedPhrase list \<Rightarrow> SavedPhrase option" where
  "lastWithText t ps = find (\<lambda>q. text' q = t) (rev ps)"

definition importedA :: SavedPhrase where
  "importedA = \<lparr>id' = ''i1'', text' = ''A'', note' = [], timestamp = 5,
                 lastScore = None, practiceCount = None\<rparr>"

definition importedB :: SavedPhrase where
  "importedB = \<lparr>id' = ''i2'', text' = ''B'', note' = [], timestamp = 6,
                 lastScore = None, practiceCount = None\<rparr>"

definition existingB :: SavedPhrase where
  "existingB = \<lparr>id' = ''e1'', text' = ''B'', note' = [], timestamp = 1,
                 lastScore = Some 50, practiceCount = Some 1\<rparr>"

definition existingC :: SavedPhrase where
  "existingC = \<lparr>id' = ''e2'', text' = ''C'', note' = [], timestamp = 2,
                 lastScore = None, practiceCount = Some 0\<rparr>"

section \<open>Properties\<close>

subsection \<open>Normalization\<close>

lemma toLowerChar_idem: "toLowerChar (toLowerChar c) = toLowerChar c"
  by (auto simp: toLowerChar_def Let_def)

lemma toLowerChar_space: "toLowerChar CHR '' '' = CHR '' ''"
  by (simp add: toLowerChar_def)

lemma space_not_punctuation: "CHR '' '' \<notin> punctuation"
  by (simp add: punctuation_def)

lemma isWhiteSpace_space: "isWhiteSpace CHR '' ''"
  by (simp add: isWhiteSpace_def)

lemma set_collapseRuns: "set (collapseRuns b s) \<subseteq> insert CHR '' '' {c \<in> set s. \<not> isWhiteSpace c}"
  by (induction s arbitrary: b) auto

lemma collapseRuns_True_head:
  "collapseRuns True s = [] \<or> \<not> isWhiteSpace (hd (collapseRuns True s))"
  by (induction s) auto

lemma spaced_collapseRuns: "spaced (collapseRuns b s)"
proof (induction s arbitrary: b)
  case Nil
  show ?case by simp
next
  case (Cons c cs)
  show ?case
  proof (cases "isWhiteSpace c")
    case True
    have "spaced (CHR '' '' # collapseRuns True cs)"
      using collapseRuns_True_head [of cs] Cons.IH [of True]
      by (cases "collapseRuns True cs") auto
    with True Cons.IH [of True] show ?thesis by simp
  next
    case False
    have "spaced (c # collapseRuns False cs)"
      using False Cons.IH [of False] by (cases "collapseRuns False cs") auto
    with False show ?thesis by simp
  qed
qed

lemma spaced_tl: "spaced (c # cs) \<Longrightarrow> spaced cs"
  by (cases cs) auto

lemma spaced_dropWhile: "spaced s \<Longrightarrow> spaced (dropWhile P s)"
  by (induction s) (auto dest: spaced_tl)

lemma spaced_take: "spaced s \<Longrightarrow> spaced (take k s)"
proof (induction s arbitrary: k rule: spaced.induct)
  case 1
  show ?case by simp
next
  case (2 c)
  then show ?case by (cases k) auto
next
  case (3 c d cs)
  show ?case
  proof (cases k)
    case 0
    then show ?thesis by simp
  next
    case (Suc j)
    show ?thesis
    proof (cases j)
      case 0
      with Suc 3 show ?thesis by auto
    next
      case (Suc i)
      with \<open>k = Suc j\<close> 3(2) 3(1) [of "Suc i"] show ?thesis by auto
    qed
  qed
qed

lemma rev_dropWhile_rev: "rev (dropWhile P (rev s)) = take (length s - length (takeWhile P (rev s))) s"
proof -
  have "dropWhile P (rev s) = drop (length (takeWhile P (rev s))) (rev s)"
    by (rule dropWhile_eq_drop)
  then show ?thesis by (simp add: rev_drop)
qed

lemma spaced_trim: "spaced s \<Longrightarrow> spaced (trim s)"
  unfolding trim_def by (simp only: rev_dropWhile_rev spaced_take spaced_dropWhile)

lemma collapse_spaced: "spaced s \<Longrightarrow> collapseRuns False s = s"
  by (induction s rule: spaced.induct) (auto simp: isWhiteSpace_space)

lemma set_trim: "set (trim s) \<subseteq> set s"
proof
  fix c
  assume "c \<in> set (trim s)"
  then have "c \<in> set (dropWhile isWhiteSpace (rev (dropWhile isWhiteSpace s)))"
    by (simp add: trim_def)
  then have "c \<in> set (rev (dropWhile isWhiteSpace s))"
    by (rule set_dropWhileD)
  then have "c \<in> set (dropWhile isWhiteSpace s)" by simp
  then show "c \<in> set s" by (rule set_dropWhileD)
qed

lemma dropWhile_rev_dropWhile:
  assumes "dropWhile P u = u"
  shows "dropWhile P (rev (dropWhile P (rev u))) = rev (dropWhile P (rev u))"
proof (cases u)
  case Nil
  then show ?thesis by simp
next
  case (Cons a w)
  have "\<not> P a"
  proof
    assume "P a"
    with assms Cons have "length (dropWhile P w) = Suc (length w)" by simp
    with length_dropWhile_le [of P w] show False by simp
  qed
  with Cons show ?thesis by (simp add: dropWhile_append)
qed

lemma trim_idem: "trim (trim s) = trim s"
proof -
  let ?u = "dropWhile isWhiteSpace s"
  let ?v = "rev (dropWhile isWhiteSpace (rev ?u))"
  have "dropWhile isWhiteSpace ?v = ?v"
    by (rule dropWhile_rev_dropWhile) simp
  then show ?thesis by (simp add: trim_def)
qed

lemma normalizeText_chars:
  "c \<in> set (normalizeText s) \<Longrightarrow> toLowerChar c = c \<and> c \<notin> punctuation"
proof -
  assume "c \<in> set (normalizeText s)"
  then have "c \<in> set (collapseRuns False (removePunctuation (toLowerCase s)))"
    using set_trim by (auto simp: normalizeText_def collapseWhitespace_def)
  then have "c = CHR '' '' \<or> c \<in> set (removePunctuation (toLowerCase s))"
    using set_collapseRuns by fastforce
  then show ?thesis
    by (auto simp: removePunctuation_def toLowerCase_def toLowerChar_idem toLowerChar_space
        space_not_punctuation)
qed

text \<open>
  C9: normalizing twice gives what normalizing once gives, for every string.
\<close>

theorem normalizeText_idempotent: "normalizeText (normalizeText s) = normalizeText s"
proof -
  let ?r = "normalizeText s"
  have lower: "toLowerCase ?r = ?r"
    unfolding toLowerCase_def by (rule map_idI) (simp add: normalizeText_chars)
  have strip: "removePunctuation ?r = ?r"
    unfolding removePunctuation_def by (simp add: filter_id_conv normalizeText_chars)
  have "spaced ?r"
    by (simp add: normalizeText_def collapseWhitespace_def spaced_trim spaced_collapseRuns)
  then have collapse: "collapseWhitespace ?r = ?r"
    by (simp add: collapseWhitespace_def collapse_spaced)
  have "trim ?r = ?r"
    by (simp add: normalizeText_def trim_idem)
  with lower strip collapse show ?thesis
    by (simp add: normalizeText_def [of "normalizeText s"])
qed

subsection \<open>Rounding to a double\<close>

lemma bitlen_rat_bounds:
  assumes "0 < a"
  shows "(2::rat) powi (bitlen a - 1) \<le> of_int a" and "of_int a < (2::rat) powi bitlen a"
proof -
  from assms have pos: "1 \<le> bitlen a"
    using bitlen_nonneg [of a] bitlen_eq_zero_iff [of a] by linarith
  from bitlen_bounds [OF assms]
  have 1: "(2::int) ^ nat (bitlen a - 1) \<le> a" and 2: "a < (2::int) ^ nat (bitlen a)"
    by simp_all
  have "(of_int ((2::int) ^ nat (bitlen a - 1)) :: rat) \<le> of_int a"
    using 1 by (simp only: of_int_le_iff)
  then show "(2::rat) powi (bitlen a - 1) \<le> of_int a"
    using pos by (simp add: power_int_nonneg_exp)
  have "(of_int a :: rat) < of_int ((2::int) ^ nat (bitlen a))"
    using 2 by (simp only: of_int_less_iff)
  then show "of_int a < (2::rat) powi bitlen a"
    using pos by (simp add: power_int_nonneg_exp)
qed

lemma ilog2_bounds:
  assumes "0 < x"
  shows "2 powi (ilog2 x) \<le> x" and "x < 2 powi (ilog2 x + 1)"
proof -
  obtain a b where q: "quotient_of x = (a, b)" by (cases "quotient_of x")
  then have b: "0 < b" and x: "x = of_int a / of_int b"
    using quotient_of_denom_pos quotient_of_div by auto
  with assms have a: "0 < a"
    by (simp add: zero_less_divide_iff)
  define k where "k = bitlen a - bitlen b"
  note A = bitlen_rat_bounds [OF a] and B = bitlen_rat_bounds [OF b]
  have "(2::rat) powi (k - 1) = 2 powi (bitlen a - 1) / 2 powi bitlen b"
    by (simp add: k_def power_int_diff [symmetric] algebra_simps)
  also have "\<dots> < of_int a / of_int b"
    using A(1) B(2) b by (intro frac_less2) simp_all
  finally have lo: "(2::rat) powi (k - 1) < x" by (simp add: x)
  have "x = of_int a / of_int b" by (rule x)
  also have "\<dots> < 2 powi bitlen a / 2 powi (bitlen b - 1)"
    using A(2) B(1) a by (intro frac_less) simp_all
  also have "\<dots> = (2::rat) powi (k + 1)"
    by (simp add: k_def power_int_diff [symmetric] algebra_simps)
  finally have hi: "x < (2::rat) powi (k + 1)" .
  have e: "ilog2 x = (if 2 powi k \<le> x then k else k - 1)"
    by (simp add: ilog2_def q k_def)
  show "2 powi (ilog2 x) \<le> x" using lo by (simp add: e)
  show "x < 2 powi (ilog2 x + 1)" using hi by (auto simp add: e not_le)
qed

lemma ilog2_less:
  assumes "0 < x" and "x < 2 powi k"
  shows "ilog2 x < k"
proof (rule ccontr)
  assume "\<not> ilog2 x < k"
  then have "(2::rat) powi k \<le> 2 powi ilog2 x"
    by (intro power_int_increasing) simp_all
  with ilog2_bounds(1) [OF assms(1)] assms(2) show False by simp
qed

lemma rne_le:
  assumes "x \<le> of_int m"
  shows "rne x \<le> m"
proof -
  have f: "\<lfloor>x\<rfloor> \<le> m" using assms by (simp add: floor_le_iff)
  show ?thesis
  proof (cases "x = of_int \<lfloor>x\<rfloor>")
    case True
    then have "rne x = \<lfloor>x\<rfloor>" by (simp add: rne_def Let_def)
    with f show ?thesis by simp
  next
    case False
    moreover have "of_int \<lfloor>x\<rfloor> \<le> x" by (rule of_int_floor_le)
    ultimately have "of_int \<lfloor>x\<rfloor> < x" by linarith
    with assms have "(of_int \<lfloor>x\<rfloor> :: rat) < of_int m" by simp
    then have "\<lfloor>x\<rfloor> < m" by (simp only: of_int_less_iff)
    then show ?thesis by (simp add: rne_def Let_def)
  qed
qed

lemma rne_ge:
  assumes "of_int m \<le> x"
  shows "m \<le> rne x"
proof -
  have "m \<le> \<lfloor>x\<rfloor>" using assms by (simp add: le_floor_iff)
  then show ?thesis by (simp add: rne_def Let_def)
qed

lemma ulp_pos: "0 < ulp x"
  by (simp add: ulp_def)

lemma fl_pos_eq: "0 < x \<Longrightarrow> fl x = of_int (rne (x / ulp x)) * ulp x"
  by (simp add: fl_def)

lemma fl_nonneg:
  assumes "0 \<le> x"
  shows "0 \<le> fl x"
proof (cases "x = 0")
  case True
  then show ?thesis by (simp add: fl_def)
next
  case False
  with assms have x: "0 < x" by simp
  have "(of_int 0 :: rat) \<le> x / ulp x"
    using x ulp_pos [of x] by simp
  then have "0 \<le> rne (x / ulp x)" by (rule rne_ge)
  then show ?thesis using ulp_pos [of x] x by (simp add: fl_pos_eq)
qed

lemma fl_le_dyadic:
  assumes "0 \<le> x" and "x \<le> of_int m / 2 ^ j" and "j \<le> 52" and "x < 2 ^ (53 - j)"
  shows "fl x \<le> of_int m / 2 ^ j"
proof (cases "x = 0")
  case True
  with assms(2) show ?thesis by (simp add: fl_def)
next
  case False
  with assms(1) have x: "0 < x" by simp
  have "x < 2 powi (int (53 - j))" using assms(4) by simp
  with x have "ilog2 x < int (53 - j)" by (rule ilog2_less)
  with assms(3) have k: "0 \<le> 52 - ilog2 x - int j" by simp
  define n where "n = nat (52 - ilog2 x - int j)"
  have u: "ulp x = 1 / (2 ^ n * 2 ^ j)"
  proof -
    have "ulp x = 2 powi (- (int n + int j))"
      using x k by (simp add: ulp_def n_def)
    also have "\<dots> = 1 / 2 powi (int (n + j))"
      by (simp only: power_int_minus_divide of_nat_add)
    also have "\<dots> = 1 / 2 ^ (n + j)"
      by (simp only: power_int_of_nat)
    finally show ?thesis by (simp add: power_add)
  qed
  have "x / ulp x \<le> (of_int m / 2 ^ j) / ulp x"
    by (rule divide_right_mono [OF assms(2)]) (rule less_imp_le [OF ulp_pos])
  also have "\<dots> = of_int (m * 2 ^ n)" by (simp add: u)
  finally have "rne (x / ulp x) \<le> m * 2 ^ n" by (rule rne_le)
  then have "(of_int (rne (x / ulp x)) :: rat) \<le> of_int (m * 2 ^ n)"
    by (simp only: of_int_le_iff)
  then have "of_int (rne (x / ulp x)) * ulp x \<le> of_int (m * 2 ^ n) * ulp x"
    using ulp_pos [of x] by (simp add: mult_right_mono)
  also have "\<dots> = of_int m / 2 ^ j" by (simp add: u)
  finally show ?thesis using x by (simp add: fl_pos_eq)
qed

lemma fl_1: "fl 1 = 1" by (simp add: fl_def ulp_def ilog2_def rne_def)
lemma fl_100: "fl 100 = 100" by code_simp

lemma Math_round_100: "Math_round 100 = 100" by code_simp

lemma roundedPercent_all:
  assumes "0 < n"
  shows "roundedPercent n n = 100"
proof -
  have "fdiv (of_nat n) (of_nat n) = 1" using assms by (simp add: fdiv_def fl_1)
  then show ?thesis
    by (simp add: roundedPercent_def fmul_def fl_100 Math_round_100)
qed

lemma fdiv_unit:
  assumes "0 < n" and "c \<le> n"
  shows "0 \<le> fdiv (of_nat c) (of_nat n)" and "fdiv (of_nat c) (of_nat n) \<le> 1"
proof -
  have q: "0 \<le> (of_nat c / of_nat n :: rat)" "(of_nat c / of_nat n :: rat) \<le> 1"
    using assms by simp_all
  show "0 \<le> fdiv (of_nat c) (of_nat n)"
    unfolding fdiv_def by (rule fl_nonneg) (rule q)
  have "fl (of_nat c / of_nat n) \<le> of_int 1 / 2 ^ 0"
    using q by (intro fl_le_dyadic) simp_all
  then show "fdiv (of_nat c) (of_nat n) \<le> 1" by (simp add: fdiv_def)
qed

lemma roundedPercent_range:
  assumes "0 < n" and "c \<le> n"
  shows "0 \<le> roundedPercent c n" and "roundedPercent c n \<le> 100"
proof -
  define q where "q = fdiv (of_nat c) (of_nat n)"
  have q: "0 \<le> q" "q \<le> 1" using fdiv_unit [OF assms] by (simp_all add: q_def)
  then have p: "0 \<le> q * 100" "q * 100 \<le> 100" by simp_all
  have lo: "0 \<le> fl (q * 100)" by (rule fl_nonneg) (rule p)
  have "fl (q * 100) \<le> of_int 100 / 2 ^ 0"
    using p by (intro fl_le_dyadic) simp_all
  then have hi: "fl (q * 100) \<le> 100" by simp
  have r: "roundedPercent c n = \<lfloor>fl (q * 100) + 1 / 2\<rfloor>"
    by (simp add: roundedPercent_def q_def fmul_def Math_round_def)
  show "0 \<le> roundedPercent c n" unfolding r using lo by (simp add: zero_le_floor)
  have "fl (q * 100) + 1 / 2 < of_int 101" using hi by simp
  then have "\<lfloor>fl (q * 100) + 1 / 2\<rfloor> < 101" by (simp only: floor_less_iff)
  then show "roundedPercent c n \<le> 100" unfolding r by simp
qed

lemma roundedPercent_below:
  assumes "c < n" and "n < 200"
  shows "roundedPercent c n < 100"
proof -
  define q where "q = fdiv (of_nat c) (of_nat n)"
  have n: "0 < n" using assms by simp
  have "199 * c \<le> 198 * n" using assms by simp
  then have "(of_nat (199 * c) :: rat) \<le> of_nat (198 * n)" by (simp only: of_nat_le_iff)
  then have "(of_nat c / of_nat n :: rat) \<le> 198 / 199"
    using n by (simp add: field_simps)
  also have "\<dots> \<le> of_int 65207 / 2 ^ 16" by simp
  finally have b: "(of_nat c / of_nat n :: rat) \<le> of_int 65207 / 2 ^ 16" .
  have "(of_nat c / of_nat n :: rat) \<le> 1" using assms by simp
  then have "(of_nat c / of_nat n :: rat) < 2 ^ (53 - 16)" by simp
  then have "fl (of_nat c / of_nat n) \<le> of_int 65207 / 2 ^ 16"
    using b by (intro fl_le_dyadic) simp_all
  then have q1: "q \<le> 65207 / 65536" by (simp add: q_def fdiv_def)
  have q0: "0 \<le> q" using fdiv_unit(1) [of n c] assms by (simp add: q_def)
  have p0: "0 \<le> q * 100" using q0 by simp
  have p1: "q * 100 \<le> of_int 1630175 / 2 ^ 14" using q1 by simp
  have "fl (q * 100) \<le> of_int 1630175 / 2 ^ 14"
    using p0 p1 q1 by (intro fl_le_dyadic) simp_all
  then have "fl (q * 100) + 1 / 2 < of_int 100" by simp
  then have "\<lfloor>fl (q * 100) + 1 / 2\<rfloor> < 100" by (simp only: floor_less_iff)
  then show ?thesis
    by (simp add: roundedPercent_def q_def fmul_def Math_round_def)
qed

lemma roundedPercent_199_200: "roundedPercent 199 200 = 100"
  by code_simp

lemma roundedPercent_2_3: "roundedPercent 2 3 = 67"
  by code_simp

subsection \<open>The writing check\<close>

lemma split_space_not_Nil: "split_space s \<noteq> []"
  by (induction s) (auto split: list.splits)

lemma at_index_nth: "at_index xs i = (if i < length xs then Some (xs ! i) else None)"
proof (induction xs arbitrary: i)
  case Nil
  show ?case by simp
next
  case (Cons x xs)
  show ?case by (cases i) (simp_all add: Cons.IH)
qed

lemma length_writingDiff:
  "length (writingDiff canonical typed) = length (split_space (normalizeText canonical))"
  by (simp add: writingDiff_def Let_def)

lemma isCorrect_writingDiff:
  assumes "idx < length (split_space (normalizeText canonical))"
  shows "isCorrect (writingDiff canonical typed ! idx) =
         (idx < length (split_space (normalizeText typed)) \<and>
          split_space (normalizeText typed) ! idx = split_space (normalizeText canonical) ! idx)"
  using assms by (auto simp: writingDiff_def Let_def nth_enumerate_eq at_index_nth)

lemma map_isCorrect_writingDiff:
  "map isCorrect (writingDiff canonical typed) =
   map (\<lambda>idx. idx < length (split_space (normalizeText typed)) \<and>
              split_space (normalizeText typed) ! idx = split_space (normalizeText canonical) ! idx)
       [0..<length (split_space (normalizeText canonical))]"
  by (rule nth_equalityI) (simp_all add: length_writingDiff isCorrect_writingDiff)

lemma length_filter_map: "length (filter P xs) = length (filter (\<lambda>b. b) (map P xs))"
  by (induction xs) simp_all

lemma correctCount_eq:
  "length (filter isCorrect (writingDiff canonical typed)) =
   length (correctPositions (split_space (normalizeText canonical))
             (split_space (normalizeText typed)))"
  unfolding correctPositions_def
  by (subst length_filter_map, subst (2) length_filter_map)
     (simp only: map_isCorrect_writingDiff)

lemma score_writingCheck:
  "score (writingCheck canonical typed) =
   roundedPercent (length (filter isCorrect (writingDiff canonical typed)))
     (length (split_space (normalizeText canonical)))"
  by (simp add: writingCheck_def Let_def)

lemma diff_writingCheck: "diff (writingCheck canonical typed) = writingDiff canonical typed"
  by (simp add: writingCheck_def Let_def)

lemma positionsMatch_iff:
  "positionsMatch canonical typed \<longleftrightarrow>
   (\<forall>e \<in> set (writingDiff canonical typed). isCorrect e)"
proof -
  let ?d = "writingDiff canonical typed"
  let ?n = "length (split_space (normalizeText canonical))"
  have "(\<forall>e \<in> set ?d. isCorrect e) \<longleftrightarrow> (\<forall>idx < ?n. isCorrect (?d ! idx))"
    by (simp add: all_set_conv_all_nth length_writingDiff)
  also have "\<dots> \<longleftrightarrow> positionsMatch canonical typed"
    by (auto simp: positionsMatch_def Let_def list_all_iff isCorrect_writingDiff)
  finally show ?thesis by simp
qed

lemma words_pos: "0 < length (split_space s)"
  using split_space_not_Nil [of s] by simp

text \<open>
  C2 (as amended): the writing-check score is an integer between 0 and 100; it is 100
  whenever the typed text has the canonical word at every canonical position; and for a
  canonical text of fewer than 200 normalized words a score of 100 is reached only then.
\<close>

theorem writingCheck_score_range:
  "0 \<le> score (writingCheck canonical typed) \<and>
   score (writingCheck canonical typed) \<le> 100 \<and>
   (positionsMatch canonical typed \<longrightarrow> score (writingCheck canonical typed) = 100) \<and>
   (length (split_space (normalizeText canonical)) < 200 \<longrightarrow>
      score (writingCheck canonical typed) = 100 \<longrightarrow> positionsMatch canonical typed)"
proof -
  let ?d = "writingDiff canonical typed"
  let ?n = "length (split_space (normalizeText canonical))"
  let ?c = "length (filter isCorrect ?d)"
  have n: "0 < ?n" by (rule words_pos)
  have c: "?c \<le> ?n"
    using length_filter_le [of isCorrect ?d] by (simp add: length_writingDiff)
  have range: "0 \<le> roundedPercent ?c ?n" "roundedPercent ?c ?n \<le> 100"
    using roundedPercent_range [OF n c] by simp_all
  have full: "roundedPercent ?c ?n = 100" if "positionsMatch canonical typed"
  proof -
    from that have "filter isCorrect ?d = ?d"
      by (simp add: positionsMatch_iff)
    then have "?c = ?n" by (simp add: length_writingDiff)
    with n show ?thesis by (simp add: roundedPercent_all)
  qed
  have short: "positionsMatch canonical typed"
    if "?n < 200" and "roundedPercent ?c ?n = 100"
  proof (rule ccontr)
    assume "\<not> positionsMatch canonical typed"
    then obtain e where "e \<in> set ?d" and "\<not> isCorrect e"
      by (auto simp: positionsMatch_iff)
    then have "?c < length ?d" by (rule length_filter_less)
    then have "?c < ?n" by (simp add: length_writingDiff)
    from roundedPercent_below [OF this that(1)] that(2) show False by simp
  qed
  show ?thesis
    unfolding score_writingCheck using range full short by blast
qed

lemma plain_a: "plain CHR ''a''"
  by (simp add: plain_def toLowerChar_def punctuation_def isWhiteSpace_def)

lemma toLowerCase_longPhrase: "plain c \<Longrightarrow> toLowerCase (longPhrase n c) = longPhrase n c"
  by (induction n) (simp_all add: longPhrase_def toLowerCase_def plain_def toLowerChar_def)

lemma removePunctuation_longPhrase:
  "plain c \<Longrightarrow> removePunctuation (longPhrase n c) = longPhrase n c"
  by (induction n) (simp_all add: longPhrase_def removePunctuation_def plain_def punctuation_def)

lemma collapseRuns_longPhrase: "plain c \<Longrightarrow> collapseRuns b (longPhrase n c) = longPhrase n c"
  by (induction n arbitrary: b) (simp_all add: longPhrase_def plain_def isWhiteSpace_def)

lemma longPhrase_head: "plain c \<Longrightarrow> \<exists>d cs. longPhrase n c = d # cs \<and> \<not> isWhiteSpace d"
  by (cases n) (simp_all add: longPhrase_def plain_def isWhiteSpace_def)

lemma trim_longPhrase:
  assumes "plain c"
  shows "trim (longPhrase n c) = longPhrase n c"
proof -
  from longPhrase_head [OF assms] obtain d cs
    where "longPhrase n c = d # cs" and "\<not> isWhiteSpace d" by blast
  then have 1: "dropWhile isWhiteSpace (longPhrase n c) = longPhrase n c" by simp
  have "dropWhile isWhiteSpace (rev (longPhrase n c)) = rev (longPhrase n c)"
    using assms by (simp add: longPhrase_def plain_def)
  with 1 show ?thesis by (simp add: trim_def)
qed

lemma normalizeText_longPhrase: "plain c \<Longrightarrow> normalizeText (longPhrase n c) = longPhrase n c"
  by (simp add: normalizeText_def collapseWhitespace_def toLowerCase_longPhrase
      removePunctuation_longPhrase collapseRuns_longPhrase trim_longPhrase)

lemma split_space_longPhrase:
  "plain c \<Longrightarrow> split_space (longPhrase n c) = replicate n ''a'' @ [[c]]"
proof (induction n)
  case 0
  then show ?case by (auto simp: longPhrase_def plain_def isWhiteSpace_def)
next
  case (Suc n)
  then show ?case by (simp add: longPhrase_def)
qed

lemma correctPositions_longPhrase:
  assumes "b \<noteq> c"
  shows "correctPositions (replicate n ''a'' @ [[b]]) (replicate n ''a'' @ [[c]]) = [0..<n]"
proof -
  have "filter (\<lambda>idx. idx < Suc n \<and>
            (replicate n ''a'' @ [[c]]) ! idx = (replicate n ''a'' @ [[b]]) ! idx) [0..<n] = [0..<n]"
    by (simp add: filter_id_conv nth_append)
  with assms show ?thesis
    by (simp add: correctPositions_def nth_append)
qed

lemma score_longPhrase:
  assumes "plain b" and "plain c" and "b \<noteq> c"
  shows "score (writingCheck (longPhrase n b) (longPhrase n c)) = roundedPercent n (Suc n)"
  using assms
  by (simp add: score_writingCheck correctCount_eq normalizeText_longPhrase
      split_space_longPhrase correctPositions_longPhrase)

lemma positionsMatch_longPhrase:
  assumes "plain b" and "plain c" and "b \<noteq> c"
  shows "\<not> positionsMatch (longPhrase n b) (longPhrase n c)"
  using assms
  by (simp add: positionsMatch_def normalizeText_longPhrase split_space_longPhrase nth_append)

lemma plain_b: "plain CHR ''b''"
  by (simp add: plain_def toLowerChar_def punctuation_def isWhiteSpace_def)

lemma plain_c: "plain CHR ''c''"
  by (simp add: plain_def toLowerChar_def punctuation_def isWhiteSpace_def)

text \<open>
  C2, the claim as stated fails: a canonical text of 200 words typed with the last word
  wrong scores \<open>Math.round(199 / 200 * 100) = 100\<close>.
\<close>

theorem score_100_with_mismatch:
  "length (split_space (normalizeText (longPhrase 199 CHR ''b''))) = 200 \<and>
   score (writingCheck (longPhrase 199 CHR ''b'') (longPhrase 199 CHR ''c'')) = 100 \<and>
   \<not> positionsMatch (longPhrase 199 CHR ''b'') (longPhrase 199 CHR ''c'')"
  using roundedPercent_199_200
  by (simp add: score_longPhrase positionsMatch_longPhrase plain_b plain_c
      normalizeText_longPhrase split_space_longPhrase)

lemma word_writingDiff:
  assumes "idx < length (split_space (normalizeText canonical))"
  shows "word (writingDiff canonical typed ! idx) =
         originalWord canonical idx (split_space (normalizeText canonical) ! idx)"
  using assms by (simp add: writingDiff_def Let_def nth_enumerate_eq)

lemma cat_example:
  "writingCheck ''The cat sat.'' ''the cat sit'' =
     \<lparr>score = 67,
      diff = [\<lparr>word = ''The'', isCorrect = True\<rparr>, \<lparr>word = ''cat'', isCorrect = True\<rparr>,
              \<lparr>word = ''sat.'', isCorrect = False\<rparr>]\<rparr>"
  by code_simp

text \<open>
  C3 (as amended): the diff has one entry per normalized canonical word; the entry at an
  index is marked correct exactly when the typed text has a word at that index and it equals
  the canonical normalized word; it displays the original piece of the phrase text; the
  score is \<open>Math.round(correctCount / targetWords.length * 100)\<close>; and for "The cat sat."
  typed as "the cat sit" the diff is The (correct), cat (correct), sat. (incorrect, with its
  full stop) and the score is 67.
\<close>

theorem writingCheck_positional:
  "length (diff (writingCheck canonical typed)) = length (split_space (normalizeText canonical)) \<and>
   (\<forall>idx < length (split_space (normalizeText canonical)).
      isCorrect (diff (writingCheck canonical typed) ! idx) =
        (idx < length (split_space (normalizeText typed)) \<and>
         split_space (normalizeText typed) ! idx = split_space (normalizeText canonical) ! idx) \<and>
      word (diff (writingCheck canonical typed) ! idx) =
        originalWord canonical idx (split_space (normalizeText canonical) ! idx)) \<and>
   score (writingCheck canonical typed) =
     Math_round (fmul (fdiv
       (of_nat (length (correctPositions (split_space (normalizeText canonical))
                          (split_space (normalizeText typed)))))
       (of_nat (length (split_space (normalizeText canonical))))) 100) \<and>
   writingCheck ''The cat sat.'' ''the cat sit'' =
     \<lparr>score = 67,
      diff = [\<lparr>word = ''The'', isCorrect = True\<rparr>, \<lparr>word = ''cat'', isCorrect = True\<rparr>,
              \<lparr>word = ''sat.'', isCorrect = False\<rparr>]\<rparr>"
  using cat_example
  by (simp add: diff_writingCheck length_writingDiff isCorrect_writingDiff word_writingDiff
      score_writingCheck correctCount_eq roundedPercent_def)

text \<open>The third position of that example, through the theorem.\<close>

theorem writingCheck_positional_witness:
  "(2::nat) < length (split_space (normalizeText ''The cat sat.'')) \<and>
   \<not> isCorrect (diff (writingCheck ''The cat sat.'' ''the cat sit'') ! 2) \<and>
   word (diff (writingCheck ''The cat sat.'' ''the cat sit'') ! 2) = ''sat.''"
proof -
  have len: "(2::nat) < length (split_space (normalizeText ''The cat sat.''))"
    by code_simp
  have ne: "split_space (normalizeText ''the cat sit'') ! 2 \<noteq>
            split_space (normalizeText ''The cat sat.'') ! 2"
    by code_simp
  have orig: "originalWord ''The cat sat.'' 2 (split_space (normalizeText ''The cat sat.'') ! 2) = ''sat.''"
    by code_simp
  from writingCheck_positional [of "''The cat sat.''" "''the cat sit''"] len
  have "isCorrect (diff (writingCheck ''The cat sat.'' ''the cat sit'') ! 2) =
          (2 < length (split_space (normalizeText ''the cat sit'')) \<and>
           split_space (normalizeText ''the cat sit'') ! 2 =
           split_space (normalizeText ''The cat sat.'') ! 2)"
    and "word (diff (writingCheck ''The cat sat.'' ''the cat sit'') ! 2) =
          originalWord ''The cat sat.'' 2 (split_space (normalizeText ''The cat sat.'') ! 2)"
    by blast+
  with len ne orig show ?thesis by simp
qed

text \<open>
  C3, the claim as stated fails: the third entry of the diff is not the word "sat".
\<close>

theorem cat_diff_counterexample:
  "diff (writingCheck ''The cat sat.'' ''the cat sit'') \<noteq>
     [\<lparr>word = ''The'', isCorrect = True\<rparr>, \<lparr>word = ''cat'', isCorrect = True\<rparr>,
      \<lparr>word = ''sat'', isCorrect = False\<rparr>]"
  by (simp add: cat_example)

text \<open>A typed text that matches after normalization scores 100, through the theorem of C2.\<close>

theorem writingCheck_score_range_witness:
  "positionsMatch ''The cat sat.'' ''the  CAT sat!'' \<and>
   length (split_space (normalizeText ''The cat sat.'')) < 200 \<and>
   score (writingCheck ''The cat sat.'' ''the  CAT sat!'') = 100"
proof -
  have m: "positionsMatch ''The cat sat.'' ''the  CAT sat!''" by code_simp
  have l: "length (split_space (normalizeText ''The cat sat.'')) < 200" by code_simp
  from writingCheck_score_range [of "''The cat sat.''" "''the  CAT sat!''"] m
  have "score (writingCheck ''The cat sat.'' ''the  CAT sat!'') = 100" by blast
  with m l show ?thesis by simp
qed

lemma exercise_updatePhraseScore: "exercise (updatePhraseScore i sc st) = exercise st"
  by (simp add: updatePhraseScore_def Let_def)

text \<open>
  C10: whatever the phrase text and the typed input, the normalized canonical word list
  is not empty, so the divisor of the score is not zero; \<^verbatim>\<open>checkWriting\<close> on a drill whose
  index is inside the snapshot returns, and the diff it stores has one entry per normalized
  canonical word.
\<close>

theorem checkWriting_total:
  assumes "exercise st = Some ex"
    and "at_index (shuffledPhrases ex) (currentPhraseIndex ex) = Some current"
  shows "split_space (normalizeText (text' current)) \<noteq> [] \<and>
         (of_nat (length (split_space (normalizeText (text' current)))) :: rat) \<noteq> 0 \<and>
         (\<exists>st' ex' r. checkWriting st = Inr st' \<and> exercise st' = Some ex' \<and>
            writingResult ex' = Some r \<and> r = writingCheck (text' current) (userInput ex) \<and>
            length (diff r) = length (split_space (normalizeText (text' current))))"
  using assms split_space_not_Nil [of "normalizeText (text' current)"]
  by (simp add: checkWriting_def Let_def exercise_updatePhraseScore diff_writingCheck
      length_writingDiff)

text \<open>A phrase of punctuation only, checked against an empty input.\<close>

theorem checkWriting_total_witness:
  "split_space (normalizeText ''...'') = [[]] \<and>
   (\<exists>st' ex' r. checkWriting (drillOf dotsPhrase []) = Inr st' \<and> exercise st' = Some ex' \<and>
      writingResult ex' = Some r \<and> length (diff r) = 1)"
proof -
  have e: "exercise (drillOf dotsPhrase []) =
             Some \<lparr>currentPhraseIndex = 0, shuffledPhrases = [dotsPhrase], step = WRITING,
                   userInput = [], writingResult = None\<rparr>"
    by (simp add: drillOf_def)
  have w: "split_space (normalizeText ''...'') = [[]]" by code_simp
  have t: "text' dotsPhrase = ''...''" by (simp add: dotsPhrase_def)
  from checkWriting_total [OF e, of dotsPhrase] w t show ?thesis
    by auto
qed

subsection \<open>The phrase library: scores and saving\<close>









subsection \<open>The practice session\<close>

lemma handleProcessing_fails:
  assumes "analysisFails encoded resp"
  shows "handleProcessing encoded resp st = analysisFailed (st\<lparr>status := ANALYZING\<rparr>)"
  using assms
  by (auto simp: handleProcessing_def analysisFails_def Let_def split: sum.splits)

text \<open>
  C7: when the analysis fails, \<^verbatim>\<open>handleProcessing\<close> (which enters ANALYZING first) ends
  in ERROR with the failure message; the result, unset since \<^verbatim>\<open>startRecording\<close>, stays
  unset; the reset then gives IDLE, and the target text is what it was.
\<close>

theorem analysis_failure_then_reset:
  assumes "analysisFails encoded resp" and "result st = None"
  shows "status (handleProcessing encoded resp st) = ERROR \<and>
         result (handleProcessing encoded resp st) = None \<and>
         errorMessage (handleProcessing encoded resp st) = AnalysisFailed \<and>
         targetText (handleProcessing encoded resp st) = targetText st \<and>
         status (onGoHome (handleProcessing encoded resp st)) = IDLE \<and>
         targetText (onGoHome (handleProcessing encoded resp st)) = targetText st \<and>
         result (startRecording True st') = None \<and>
         status (startRecording True st') = RECORDING"
  using assms(2)
  by (simp add: handleProcessing_fails [OF assms(1)] analysisFailed_def onGoHome_def
      startRecording_def)

text \<open>
  A rejected request after a recording started from the initial state.
\<close>

theorem analysis_failure_then_reset_witness:
  "analysisFails (Inr ''QUJD'') Rejected \<and>
   result (startRecording True initialApp) = None \<and>
   status (handleProcessing (Inr ''QUJD'') Rejected (startRecording True initialApp)) = ERROR \<and>
   result (handleProcessing (Inr ''QUJD'') Rejected (startRecording True initialApp)) = None \<and>
   status (onGoHome (handleProcessing (Inr ''QUJD'') Rejected (startRecording True initialApp))) = IDLE \<and>
   targetText (onGoHome (handleProcessing (Inr ''QUJD'') Rejected (startRecording True initialApp)))
     = ''The quick brown fox jumps over the lazy dog.''"
proof -
  have f: "analysisFails (Inr ''QUJD'') Rejected" by (simp add: analysisFails_def)
  have r: "result (startRecording True initialApp) = None" by (simp add: startRecording_def)
  have t: "targetText (startRecording True initialApp) = ''The quick brown fox jumps over the lazy dog.''"
    by (simp add: startRecording_def initialApp_def)
  from analysis_failure_then_reset [OF f r] f r t show ?thesis by simp
qed

text \<open>
  C8, the code at the failing inputs: a response without text is parsed as \<^verbatim>\<open>{}\<close> and an
  object with one field only is returned as it is; neither has the shape of
  \<^verbatim>\<open>AnalysisResult\<close>, yet \<^verbatim>\<open>analyzeSpeech\<close> returns them as values, \<^verbatim>\<open>handleProcessing\<close>
  stores them with status RESULT instead of ending in ERROR, and the render of that state
  throws a TypeError when it reads \<^verbatim>\<open>result.mispronouncedWords.length\<close>.
\<close>

theorem shape_violation_shown_as_result:
  "\<not> isAnalysisResult (JObj []) \<and>
   analyzeSpeech (Response NoText) = Inr (JObj []) \<and>
   status (handleProcessing (Inr ''QUJD'') (Response NoText) initialApp) = RESULT \<and>
   result (handleProcessing (Inr ''QUJD'') (Response NoText) initialApp) = Some (JObj []) \<and>
   renderResultPanel (handleProcessing (Inr ''QUJD'') (Response NoText) initialApp) =
     Inl TypeError \<and>
   \<not> isAnalysisResult (JObj [(''feedback'', JStr ''ok'')]) \<and>
   analyzeSpeech (Response (Json (JObj [(''feedback'', JStr ''ok'')]))) =
     Inr (JObj [(''feedback'', JStr ''ok'')]) \<and>
   status (handleProcessing (Inr ''QUJD'')
      (Response (Json (JObj [(''feedback'', JStr ''ok'')]))) initialApp) = RESULT \<and>
   renderResultPanel (handleProcessing (Inr ''QUJD'')
      (Response (Json (JObj [(''feedback'', JStr ''ok'')]))) initialApp) = Inl TypeError"
  by (simp add: hasField_def handleProcessing_def initialApp_def renderResultPanel_def Let_def)


subsection \<open>Import\<close>

lemma remdups_app:
  "remdups (xs @ ys) = filter (\<lambda>x. x \<notin> set ys) (remdups xs) @ remdups ys"
  by (induction xs) auto

lemma firstOccurrences_append:
  "firstOccurrences (xs @ ys) = firstOccurrences xs @ filter (\<lambda>y. y \<notin> set xs) (firstOccurrences ys)"
proof -
  have "remdups (rev ys @ rev xs) =
        filter (\<lambda>y. y \<notin> set xs) (remdups (rev ys)) @ remdups (rev xs)"
    by (simp add: remdups_app)
  then show ?thesis
    by (simp add: firstOccurrences_def rev_filter)
qed

lemma firstOccurrences_Cons:
  "firstOccurrences (x # xs) = x # filter (\<lambda>y. y \<noteq> x) (firstOccurrences xs)"
  using firstOccurrences_append [of "[x]" xs] by (simp add: firstOccurrences_def)

lemma distinct_firstOccurrences: "distinct (firstOccurrences xs)"
  by (simp add: firstOccurrences_def)

lemma set_firstOccurrences: "set (firstOccurrences xs) = set xs"
  by (simp add: firstOccurrences_def)

lemma firstOccurrences_distinct: "distinct xs \<Longrightarrow> firstOccurrences xs = xs"
  by (simp add: firstOccurrences_def distinct_remdups_id)

lemma keys_Map_set:
  "map fst (Map_set m k v) = (if k \<in> set (map fst m) then map fst m else map fst m @ [k])"
proof (induction m)
  case Nil
  show ?case by simp
next
  case (Cons p m)
  obtain j w where p: "p = (j, w)" by (cases p)
  show ?case
  proof (cases "j = k")
    case True
    then show ?thesis by (simp add: p)
  next
    case False
    then show ?thesis using Cons.IH by (simp add: p)
  qed
qed

lemma map_of_Map_set: "map_of (Map_set m k v) = (map_of m)(k \<mapsto> v)"
  by (induction m) (auto simp: fun_upd_twist)

lemma keys_fold:
  "map fst (foldl (\<lambda>m (k, v). Map_set m k v) m ps) =
   map fst m @ filter (\<lambda>k. k \<notin> set (map fst m)) (firstOccurrences (map fst ps))"
proof (induction ps arbitrary: m)
  case Nil
  show ?case by (simp add: firstOccurrences_def)
next
  case (Cons p ps)
  obtain k v where p: "p = (k, v)" by (cases p)
  show ?case
  proof (cases "k \<in> set (map fst m)")
    case True
    then have "filter (\<lambda>j. j \<notin> set (map fst m)) (filter (\<lambda>y. y \<noteq> k) (firstOccurrences (map fst ps)))
             = filter (\<lambda>j. j \<notin> set (map fst m)) (firstOccurrences (map fst ps))"
      by (auto intro!: filter_cong)
    with True show ?thesis
      by (simp add: p Cons.IH keys_Map_set firstOccurrences_Cons del: set_map)
  next
    case False
    have "filter (\<lambda>j. j \<notin> set (map fst m @ [k])) (firstOccurrences (map fst ps))
        = filter (\<lambda>j. j \<notin> set (map fst m)) (filter (\<lambda>y. y \<noteq> k) (firstOccurrences (map fst ps)))"
      by (auto intro!: filter_cong)
    with False show ?thesis
      by (simp add: p Cons.IH keys_Map_set firstOccurrences_Cons del: set_map set_append)
  qed
qed

lemma map_of_fold:
  "map_of (foldl (\<lambda>m (k, v). Map_set m k v) m ps) = map_of m ++ map_of (rev ps)"
proof (induction ps arbitrary: m)
  case Nil
  show ?case by simp
next
  case (Cons p ps)
  obtain k v where p: "p = (k, v)" by (cases p)
  have "map_of (foldl (\<lambda>m (k, v). Map_set m k v) m (p # ps)) =
        (map_of m)(k \<mapsto> v) ++ map_of (rev ps)"
    by (simp only: p foldl_Cons prod.case Cons.IH map_of_Map_set)
  also have "\<dots> = map_of m ++ map_of (rev ps @ [(k, v)])"
  proof (rule ext)
    fix t
    show "((map_of m)(k \<mapsto> v) ++ map_of (rev ps)) t = (map_of m ++ map_of (rev ps @ [(k, v)])) t"
      by (cases "map_of (rev ps) t") (simp_all add: map_add_def)
  qed
  finally show ?case by (simp only: p rev.simps)
qed

lemma keys_new_Map: "map fst (new_Map ps) = firstOccurrences (map fst ps)"
  by (simp add: new_Map_def keys_fold)

lemma map_of_new_Map: "map_of (new_Map ps) = map_of (rev ps)"
  by (simp add: new_Map_def map_of_fold)

lemma map_of_keyed: "map_of (map (\<lambda>x. (f x, x)) ys) t = find (\<lambda>q. f q = t) ys"
  by (induction ys) auto

lemma values_by_keys:
  assumes "distinct (map fst m)"
  shows "map snd m = map (\<lambda>k. the (map_of m k)) (map fst m)"
  using assms
proof (induction m)
  case Nil
  show ?case by simp
next
  case (Cons p m)
  obtain k v where p: "p = (k, v)" by (cases p)
  from Cons.prems have k: "k \<notin> set (map fst m)" and d: "distinct (map fst m)"
    by (simp_all add: p)
  have "map (\<lambda>j. the (map_of ((k, v) # m) j)) (map fst m) =
        map (\<lambda>j. the (map_of m j)) (map fst m)"
    using k by (intro map_cong) auto
  with Cons.IH [OF d] show ?case by (simp add: p)
qed

lemma mergeImport_char:
  "mergeImport js saved =
   map (\<lambda>t. the (lastWithText t (js @ saved))) (firstOccurrences (map text' (js @ saved)))"
proof -
  let ?ps = "map (\<lambda>item. (text' item, item)) (js @ saved)"
  have k: "map fst (new_Map ?ps) = firstOccurrences (map text' (js @ saved))"
    by (simp add: keys_new_Map comp_def)
  then have d: "distinct (map fst (new_Map ?ps))"
    by (simp only: distinct_firstOccurrences)
  have r: "rev ?ps = map (\<lambda>item. (text' item, item)) (rev (js @ saved))"
    by (simp only: rev_map)
  have f: "the (map_of (new_Map ?ps) t) = the (lastWithText t (js @ saved))" for t
    unfolding map_of_new_Map lastWithText_def r by (simp only: map_of_keyed)
  have "map snd (new_Map ?ps) =
      map (\<lambda>t. the (lastWithText t (js @ saved))) (map fst (new_Map ?ps))"
    using values_by_keys [OF d] by (simp only: f)
  then show ?thesis
    by (simp only: mergeImport_def Map_values_def Let_def k)
qed

lemma find_app:
  "find P (xs @ ys) = (case find P xs of None \<Rightarrow> find P ys | Some x \<Rightarrow> Some x)"
  by (induction xs) simp_all

lemma lastWithText_append:
  "lastWithText t (js @ saved) =
   (case lastWithText t saved of None \<Rightarrow> lastWithText t js | Some q \<Rightarrow> Some q)"
  unfolding lastWithText_def by (simp add: find_app)

lemma lastWithText_None: "t \<notin> set (map text' xs) \<Longrightarrow> lastWithText t xs = None"
  by (auto simp: lastWithText_def find_None_iff)

lemma lastWithText_Some:
  assumes "t \<in> set (map text' xs)"
  obtains p where "lastWithText t xs = Some p" and "text' p = t" and "p \<in> set xs"
proof -
  from assms have "lastWithText t xs \<noteq> None"
    by (auto simp: lastWithText_def find_None_iff)
  then obtain p where p: "lastWithText t xs = Some p" by auto
  then obtain i where i: "i < length (rev xs)" "text' (rev xs ! i) = t" "p = rev xs ! i"
    unfolding lastWithText_def find_Some_iff by blast
  from i(1,3) have "p \<in> set (rev xs)" by (simp only: nth_mem)
  then have "p \<in> set xs" by simp
  with p i(2,3) show ?thesis by (intro that) simp_all
qed

lemma lastWithText_self:
  assumes "distinct (map text' xs)" and "p \<in> set xs"
  shows "lastWithText (text' p) xs = Some p"
proof -
  from assms(2) have "text' p \<in> set (map text' xs)" by simp
  then obtain q where q: "lastWithText (text' p) xs = Some q" "text' q = text' p" "q \<in> set xs"
    by (rule lastWithText_Some)
  from assms(1) have "inj_on text' (set xs)" by (simp add: distinct_map)
  with q(2,3) assms(2) have "q = p" by (auto dest: inj_onD)
  with q(1) show ?thesis by simp
qed

lemma texts_mergeImport:
  "map text' (mergeImport js saved) = firstOccurrences (map text' (js @ saved))"
proof -
  have "text' (the (lastWithText t (js @ saved))) = t"
    if "t \<in> set (firstOccurrences (map text' (js @ saved)))" for t
  proof -
    from that have "t \<in> set (map text' (js @ saved))" by (simp only: set_firstOccurrences)
    then obtain p where "lastWithText t (js @ saved) = Some p" and "text' p = t"
      by (rule lastWithText_Some)
    then show ?thesis by simp
  qed
  then show ?thesis
    by (simp add: mergeImport_char comp_def map_idI)
qed

lemma mergeImport_member:
  assumes "p \<in> set (mergeImport js saved)"
  shows "lastWithText (text' p) (js @ saved) = Some p"
proof -
  from assms obtain t where t: "t \<in> set (map text' (js @ saved))"
    and p: "p = the (lastWithText t (js @ saved))"
    by (auto simp: mergeImport_char set_firstOccurrences simp del: map_append set_append)
  from t obtain q where q: "lastWithText t (js @ saved) = Some q" "text' q = t"
    by (rule lastWithText_Some)
  with p show ?thesis by simp
qed

lemma mergeImport_distinct_texts:
  assumes "distinct (map text' js)" and "distinct (map text' saved)"
  shows "mergeImport js saved =
         map (\<lambda>p. case lastWithText (text' p) saved of None \<Rightarrow> p | Some q \<Rightarrow> q) js @
         filter (\<lambda>q. text' q \<notin> set (map text' js)) saved"
proof -
  have 1: "map (\<lambda>t. the (lastWithText t (js @ saved))) (map text' js) =
           map (\<lambda>p. case lastWithText (text' p) saved of None \<Rightarrow> p | Some q \<Rightarrow> q) js"
    using assms(1)
    by (auto simp: lastWithText_append lastWithText_self split: option.splits)
  have 2: "map (\<lambda>t. the (lastWithText t (js @ saved)))
             (filter (\<lambda>t. t \<notin> set (map text' js)) (map text' saved)) =
           filter (\<lambda>q. text' q \<notin> set (map text' js)) saved"
  proof -
    have "map (\<lambda>q. the (lastWithText (text' q) (js @ saved)))
            (filter (\<lambda>q. text' q \<notin> set (map text' js)) saved) =
          filter (\<lambda>q. text' q \<notin> set (map text' js)) saved"
      using assms(2)
      by (intro map_idI) (simp add: lastWithText_append lastWithText_self)
    then show ?thesis by (simp add: filter_map comp_def)
  qed
  have "firstOccurrences (map text' (js @ saved)) =
        map text' js @ filter (\<lambda>t. t \<notin> set (map text' js)) (map text' saved)"
    using assms by (simp add: firstOccurrences_append firstOccurrences_distinct)
  then show ?thesis
    by (simp only: mergeImport_char map_append 1 2)
qed

text \<open>
  C1 (as amended): a confirmed import of an array replaces the library by the merge of the
  file and the library, and stores it. The merged sequence has at most one phrase per text; its texts are the
  texts of the file in the order of their first occurrence, then the texts found in the
  library only, in their order; the phrase kept for a text that the library has is the last
  library phrase with that text (the pre-existing record wins over the imported one), and
  for any other text the last phrase of the file with it. When neither sequence repeats a
  text, the result is the file with every phrase that the library also has replaced by the
  library's, followed by the library phrases whose text the file does not have.
\<close>

theorem mergeImport_existing_wins:
  "savedPhrases (handleImport (ArrayFile js) True st) = mergeImport js (savedPhrases st) \<and>
   storedPhrases (handleImport (ArrayFile js) True st) = Some (mergeImport js (savedPhrases st)) \<and>
   distinct (map text' (mergeImport js saved)) \<and>
   map text' (mergeImport js saved) =
     firstOccurrences (map text' js) @
     filter (\<lambda>t. t \<notin> set (map text' js)) (firstOccurrences (map text' saved)) \<and>
   (\<forall>p \<in> set (mergeImport js saved).
      (text' p \<in> set (map text' saved) \<longrightarrow> lastWithText (text' p) saved = Some p) \<and>
      (text' p \<notin> set (map text' saved) \<longrightarrow> lastWithText (text' p) js = Some p)) \<and>
   (distinct (map text' js) \<longrightarrow> distinct (map text' saved) \<longrightarrow>
      mergeImport js saved =
        map (\<lambda>p. case lastWithText (text' p) saved of None \<Rightarrow> p | Some q \<Rightarrow> q) js @
        filter (\<lambda>q. text' q \<notin> set (map text' js)) saved)"
proof -
  have 1: "distinct (map text' (mergeImport js saved))"
    by (simp only: texts_mergeImport distinct_firstOccurrences)
  have 2: "map text' (mergeImport js saved) =
     firstOccurrences (map text' js) @
     filter (\<lambda>t. t \<notin> set (map text' js)) (firstOccurrences (map text' saved))"
    by (simp only: texts_mergeImport map_append firstOccurrences_append)
  have 3: "lastWithText (text' p) saved = Some p"
    if "p \<in> set (mergeImport js saved)" and "text' p \<in> set (map text' saved)" for p
  proof -
    from that(2) obtain q where "lastWithText (text' p) saved = Some q"
      by (rule lastWithText_Some)
    with mergeImport_member [OF that(1)] show ?thesis
      by (simp add: lastWithText_append)
  qed
  have 4: "lastWithText (text' p) js = Some p"
    if "p \<in> set (mergeImport js saved)" and "text' p \<notin> set (map text' saved)" for p
    using mergeImport_member [OF that(1)] lastWithText_None [OF that(2)]
    by (simp add: lastWithText_append)
  have 0: "savedPhrases (handleImport (ArrayFile js) True st) = mergeImport js (savedPhrases st)"
    "storedPhrases (handleImport (ArrayFile js) True st) = Some (mergeImport js (savedPhrases st))"
    by (simp_all add: handleImport_def Let_def)
  from 0 1 2 3 4 mergeImport_distinct_texts [of js saved] show ?thesis by blast
qed

text \<open>
  The import scenario, through the theorem: A, the library's B, C.
\<close>

theorem mergeImport_existing_wins_witness:
  "distinct (map text' [importedA, importedB]) \<and> distinct (map text' [existingB, existingC]) \<and>
   mergeImport [importedA, importedB] [existingB, existingC] = [importedA, existingB, existingC]"
proof -
  have d: "distinct (map text' [importedA, importedB])" "distinct (map text' [existingB, existingC])"
    by (simp_all add: importedA_def importedB_def existingB_def existingC_def)
  have l: "lastWithText (text' importedA) [existingB, existingC] = None"
    "lastWithText (text' importedB) [existingB, existingC] = Some existingB"
    by (simp_all add: lastWithText_def importedA_def importedB_def existingB_def existingC_def)
  have f: "filter (\<lambda>q. text' q \<notin> set (map text' [importedA, importedB])) [existingB, existingC]
           = [existingC]"
    by (simp add: importedA_def importedB_def existingB_def existingC_def)
  from mergeImport_existing_wins [where js = "[importedA, importedB]"
      and saved = "[existingB, existingC]"] d
  have "mergeImport [importedA, importedB] [existingB, existingC] =
        map (\<lambda>p. case lastWithText (text' p) [existingB, existingC] of None \<Rightarrow> p | Some q \<Rightarrow> q)
          [importedA, importedB] @
        filter (\<lambda>q. text' q \<notin> set (map text' [importedA, importedB])) [existingB, existingC]"
    by blast
  with d l f show ?thesis by simp
qed

text \<open>
  C1, the claim as stated fails: after importing A and B into the library B (score 50), C
  the phrase kept for the text B is the library's, with its score, not the imported one.
\<close>

theorem import_wins_counterexample:
  "mergeImport [importedA, importedB] [existingB, existingC] = [importedA, existingB, existingC] \<and>
   text' importedB = text' existingB \<and> importedB \<noteq> existingB \<and>
   importedB \<notin> set (mergeImport [importedA, importedB] [existingB, existingC]) \<and>
   lastScore (mergeImport [importedA, importedB] [existingB, existingC] ! 1) = Some 50"
  by (simp add: mergeImport_def Map_values_def new_Map_def
      importedA_def importedB_def existingB_def existingC_def)

subsection \<open>The order of a drill\<close>

















end
